theory Spec2Isabelle
  imports Main "HOL-Library.Char_ord" "HOL-Library.List_Lexorder" "HOL-Library.Multiset"
begin

section \<open>Python values and exceptions\<close>

text \<open>
  The arguments that reach \<^verbatim>\<open>is_truthy\<close> are dynamically typed. The module itself calls
  it with \<^verbatim>\<open>os.getenv("INVOKE_LOCAL", False)\<close>, which is a string or the boolean default;
  the other two constructors stand for the values that are neither.
  A string is a list of bytes (its UTF-8 encoding).
\<close>

datatype py_value = PyBool bool | PyStr string | PyInt int | PyNone

text \<open>
  \<^verbatim>\<open>ValueError\<close> is raised by \<^verbatim>\<open>strtobool\<close>; \<^verbatim>\<open>AttributeError\<close> is what
  \<^verbatim>\<open>val.lower()\<close> raises on a value without that method; \<^verbatim>\<open>UnexpectedExit\<close> is how
  the invoke context reports a command that exits with a non-zero code. The message of an
  exception is not modelled.
\<close>

datatype py_error = ValueError | AttributeError | UnexpectedExit int

section \<open>tasks.py: is_truthy\<close>

text \<open>
  \<^verbatim>\<open>str.lower()\<close>, as far as the membership tests of \<open>strtobool\<close> depend on it, which is
  the only use made of it. On ASCII it moves \<open>A..Z\<close> to \<open>a..z\<close>; every byte of a
  multi-byte UTF-8 sequence is \<open>\<ge> 128\<close> and stays as it is. Python lower-cases
  non-ASCII letters too, but a string with a non-ASCII character keeps one when it is
  lower-cased, except for the Kelvin sign, which becomes \<open>k\<close>, a letter that occurs in none
  of the twelve words below; so the membership tests of \<open>strtobool\<close> come out the same.
\<close>

definition lower_char :: "char \<Rightarrow> char" where
  "lower_char c =
     (let n = (of_char c :: nat) in if 65 \<le> n \<and> n \<le> 90 then char_of (n + 32) else c)"

definition lower :: "string \<Rightarrow> string" where
  "lower s = map lower_char s"

definition true_values :: "string list" where
  "true_values = [''y'', ''yes'', ''t'', ''true'', ''on'', ''1'']"

definition false_values :: "string list" where
  "false_values = [''n'', ''no'', ''f'', ''false'', ''off'', ''0'']"

text \<open>
  \<^verbatim>\<open>distutils.util.strtobool\<close>, the standard library function \<^verbatim>\<open>is_truthy\<close> delegates to:
  \<^verbatim>\<open>
  def strtobool(val):
      val = val.lower()
      if val in ('y', 'yes', 't', 'true', 'on', '1'):
          return 1
      elif val in ('n', 'no', 'f', 'false', 'off', '0'):
          return 0
      else:
          raise ValueError("invalid truth value %r" % (val,))
  \<close>
  The message of the \<^verbatim>\<open>ValueError\<close>, which quotes the lower-cased value, is not modelled.
\<close>

fun strtobool :: "py_value \<Rightarrow> py_error + int" where
  "strtobool (PyStr s) =
     (let val = lower s in
      if val \<in> set true_values then Inr 1
      else if val \<in> set false_values then Inr 0
      else Inl ValueError)"
| "strtobool _ = Inl AttributeError"

text \<open>
  \<^verbatim>\<open>
  def is_truthy(arg):
      if isinstance(arg, bool):
          return arg
      return bool(strtobool(arg))
  \<close>
\<close>

fun is_truthy :: "py_value \<Rightarrow> py_error + bool" where
  "is_truthy (PyBool b) = Inr b"
| "is_truthy arg = (case strtobool arg of Inl e \<Rightarrow> Inl e | Inr n \<Rightarrow> Inr (n \<noteq> 0))"

section \<open>tasks.py: run_cmd\<close>

text \<open>
  The process as \<^verbatim>\<open>run_cmd\<close> sees it: the lines printed so far and the state of the invoke
  context. \<^verbatim>\<open>context.run(cmd, pty=...)\<close> belongs to the invoke library; it is a parameter
  \<open>run\<close> that takes the command, the \<open>pty\<close> flag and the context's state, and gives the
  outcome (the result object, or the exception it raises) and the context's new state.
\<close>

record 'c world =
  stdout :: "string list"
  ctx :: 'c

type_synonym ('c, 'r) runner = "string \<Rightarrow> bool \<Rightarrow> 'c \<Rightarrow> (py_error + 'r) \<times> 'c"

definition print :: "string \<Rightarrow> 'c world \<Rightarrow> 'c world" where
  "print line w = w\<lparr>stdout := stdout w @ [line]\<rparr>"

definition context_run :: "('c, 'r) runner \<Rightarrow> string \<Rightarrow> bool \<Rightarrow> 'c world \<Rightarrow> (py_error + 'r) \<times> 'c world" where
  "context_run run cmd pty w = (case run cmd pty (ctx w) of (r, c) \<Rightarrow> (r, w\<lparr>ctx := c\<rparr>))"

text \<open>The command line of the \<^verbatim>\<open>else\<close> branch; \<open>pwd\<close> is the module constant \<^verbatim>\<open>PWD\<close>.\<close>

definition docker_cmd :: "string \<Rightarrow> string \<Rightarrow> string \<Rightarrow> string \<Rightarrow> string" where
  "docker_cmd pwd name image_ver exec_cmd =
     ''docker run -it -v '' @ pwd @ '':/local '' @ name @ '':'' @ image_ver @ '' sh -c '' @ [CHR 39] @ exec_cmd @ [CHR 39]"

text \<open>
  \<^verbatim>\<open>
  def run_cmd(context, exec_cmd, name=NAME, image_ver=IMAGE_VER, local=INVOKE_LOCAL):
      if is_truthy(local):
          print(f"LOCAL - Running command {exec_cmd}")
          result = context.run(exec_cmd, pty=True)
      else:
          print(f"DOCKER - Running command: {exec_cmd} container: {name}:{image_ver}")
          result = context.run(f"docker run -it -v {PWD}:/local {name}:{image_ver} sh -c '{exec_cmd}'", pty=True)
      return result
  \<close>
  An exception of \<^verbatim>\<open>is_truthy\<close> leaves the function before anything is printed or run.
\<close>

definition run_cmd ::
  "('c, 'r) runner \<Rightarrow> string \<Rightarrow> 'c world \<Rightarrow> string \<Rightarrow> string \<Rightarrow> string \<Rightarrow> py_value \<Rightarrow> (py_error + 'r) \<times> 'c world" where
  "run_cmd run pwd w exec_cmd name image_ver local =
     (case is_truthy local of
        Inl e \<Rightarrow> (Inl e, w)
      | Inr True \<Rightarrow>
          context_run run exec_cmd True (print (''LOCAL - Running command '' @ exec_cmd) w)
      | Inr False \<Rightarrow>
          context_run run (docker_cmd pwd name image_ver exec_cmd) True
            (print (''DOCKER - Running command: '' @ exec_cmd @ '' container: '' @ name @ '':'' @ image_ver) w))"

text \<open>
  A context for running the model: it records every command it is given, with the
  \<open>pty\<close> flag, and answers with the number of commands it has seen.
\<close>

definition recording_run :: "((string \<times> bool) list, nat) runner" where
  "recording_run cmd pty calls = (Inr (Suc (length calls)), calls @ [(cmd, pty)])"

section \<open>tests/test_manager.py: test_iter_schemas\<close>

text \<open>
  \<^verbatim>\<open>
  def test_iter_schemas(schema_manager):
      expected_schemas = ['schemas/dns_servers', 'schemas/syslog_servers', 'schemas/ntp']
      schemas = schema_manager.iter_schemas()
      for schema in schemas:
          assert schema[0] in expected_schemas
  \<close>
  The test takes what \<^verbatim>\<open>iter_schemas()\<close> yields and passes when no assertion fails.
\<close>

definition expected_schemas :: "string list" where
  "expected_schemas = [''schemas/dns_servers'', ''schemas/syslog_servers'', ''schemas/ntp'']"

definition test_iter_schemas :: "(string \<times> 's) list \<Rightarrow> bool" where
  "test_iter_schemas schemas = list_all (\<lambda>schema. fst schema \<in> set expected_schemas) schemas"

section \<open>The Schema Store\<close>

text \<open>
  The Schema Manager (\<^verbatim>\<open>schema_enforcer.schemas.manager\<close>) is imported by
  \<^verbatim>\<open>tests/test_manager.py\<close> but is not among the sources. The Schema Store below is written from
  section 4.1 of the specification. A directory is the list of its files in the order the
  filesystem enumerates them; a file is its path relative to the schema root, joined with
  forward slashes, and its text. The parser of schema documents is a parameter \<open>parse\<close>,
  which gives the schema or the message of the parse failure, and so is the list \<open>exts\<close> of
  recognized schema-document extensions, which the specification does not enumerate.
\<close>

text \<open>Modelled from the spec: the characters that end the scan for a file name's extension
  (the Schema Store's path handling is missing from the sources).\<close>

definition is_sep :: "char \<Rightarrow> bool" where
  "is_sep c = (c = CHR ''.'' \<or> c = CHR ''/'')"

text \<open>Modelled from the spec: "path relative to root with extension stripped" (the Schema
  Store's identifier derivation is missing). The extension starts at the last dot of the last
  path component; a component that starts with that dot has no extension.\<close>

definition splitext :: "string \<Rightarrow> string \<times> string" where
  "splitext p =
     (case dropWhile (\<lambda>c. \<not> is_sep c) (rev p) of
        [] \<Rightarrow> (p, [])
      | d # r \<Rightarrow>
          if d = CHR ''.'' \<and> r \<noteq> [] \<and> hd r \<noteq> CHR ''/''
          then (rev r, CHR ''.'' # rev (takeWhile (\<lambda>c. \<not> is_sep c) (rev p)))
          else (p, []))"

text \<open>Modelled from the spec: "Identifier = path relative to root with extension stripped,
  using a forward-slash-joined form" (the Schema Store's identifier derivation is missing).\<close>

definition identifier_of :: "string \<Rightarrow> string" where
  "identifier_of p = fst (splitext p)"

text \<open>Modelled from the spec: "treats every file with a recognized schema-document extension
  as a candidate" (the Schema Store's directory walk is missing).\<close>

definition is_candidate :: "string list \<Rightarrow> string \<Rightarrow> bool" where
  "is_candidate exts p = (snd (splitext p) \<in> set exts)"

text \<open>Modelled from the spec: the DuplicateSchemaIdentifier error that fails the whole load
  (the Schema Store's error type is missing); it carries the identifier found twice.\<close>

datatype store_error = DuplicateSchemaIdentifier string

text \<open>Modelled from the spec: the Schema Store (its class is missing), the schemas keyed by
  identifier, kept in the lexicographic order of the identifiers.\<close>

type_synonym 's schema_store = "(string \<times> 's) list"

text \<open>Modelled from the spec: the loop of \<open>load(root_dir)\<close> (the Schema Store's loader is
  missing). It walks the files in enumeration order with the identifiers seen so far, the
  store and the load errors. A file that is not a candidate is skipped; a candidate whose
  identifier was seen before fails the whole load; a candidate that does not parse adds a
  load error (path and message) and the walk goes on; a candidate that parses is inserted
  into the store at its place in the order of the identifiers.\<close>

fun load_files ::
  "('src \<Rightarrow> string + 's) \<Rightarrow> string list \<Rightarrow> (string \<times> 'src) list \<Rightarrow> string list \<Rightarrow>
   's schema_store \<Rightarrow> (string \<times> string) list \<Rightarrow> store_error + ('s schema_store \<times> (string \<times> string) list)" where
  "load_files parse exts [] seen st errs = Inr (st, errs)"
| "load_files parse exts ((p, c) # fs) seen st errs =
     (if \<not> is_candidate exts p then load_files parse exts fs seen st errs
      else if identifier_of p \<in> set seen then Inl (DuplicateSchemaIdentifier (identifier_of p))
      else case parse c of
             Inl msg \<Rightarrow> load_files parse exts fs (identifier_of p # seen) st (errs @ [(p, msg)])
           | Inr s \<Rightarrow> load_files parse exts fs (identifier_of p # seen)
                       (insort_key fst (identifier_of p, s) st) errs)"

text \<open>Modelled from the spec: \<open>load(root_dir) -> (SchemaStore, load_errors)\<close> (the Schema
  Store's loader is missing), from an empty store.\<close>

definition load ::
  "('src \<Rightarrow> string + 's) \<Rightarrow> string list \<Rightarrow> (string \<times> 'src) list \<Rightarrow>
   store_error + ('s schema_store \<times> (string \<times> string) list)" where
  "load parse exts files = load_files parse exts files [] [] []"

text \<open>Modelled from the spec: \<open>iter()\<close>, the finite, restartable sequence of (identifier,
  schema) in the order of the identifiers (the Schema Manager's \<^verbatim>\<open>iter_schemas\<close> is missing;
  \<^verbatim>\<open>test_iter_schemas\<close> reads the identifier as the first component of each item).\<close>

definition iter_schemas :: "'s schema_store \<Rightarrow> (string \<times> 's) list" where
  "iter_schemas st = st"

text \<open>Modelled from the spec: \<open>get(identifier) -> Schema | NotFound\<close> (the Schema Store's
  lookup is missing); \<open>None\<close> is NotFound.\<close>

definition get_schema :: "'s schema_store \<Rightarrow> string \<Rightarrow> 's option" where
  "get_schema st i = map_of st i"

text \<open>Modelled from the spec: the candidate files of a directory, in enumeration order (the
  Schema Store's directory walk is missing).\<close>

definition candidates :: "string list \<Rightarrow> (string \<times> 'src) list \<Rightarrow> (string \<times> 'src) list" where
  "candidates exts files = filter (\<lambda>f. is_candidate exts (fst f)) files"

text \<open>Modelled from the spec: the identifiers the candidate files normalize to, one per file
  (the Schema Store's identifier derivation is missing).\<close>

definition candidate_ids :: "string list \<Rightarrow> (string \<times> 'src) list \<Rightarrow> string list" where
  "candidate_ids exts files = map (\<lambda>f. identifier_of (fst f)) (candidates exts files)"

text \<open>Modelled from the spec: the "runnable set", the candidates that parse, each with its
  identifier (the Schema Store's loader is missing).\<close>

definition runnable :: "('src \<Rightarrow> string + 's) \<Rightarrow> string list \<Rightarrow> (string \<times> 'src) list \<Rightarrow> (string \<times> 's) list" where
  "runnable parse exts files =
     List.map_filter (\<lambda>f. case parse (snd f) of Inl msg \<Rightarrow> None | Inr s \<Rightarrow> Some (identifier_of (fst f), s))
       (candidates exts files)"

text \<open>Modelled from the spec: the load errors, "path + message" of each candidate that does
  not parse, in enumeration order (the Schema Store's loader is missing).\<close>

definition failed :: "('src \<Rightarrow> string + 's) \<Rightarrow> string list \<Rightarrow> (string \<times> 'src) list \<Rightarrow> (string \<times> string) list" where
  "failed parse exts files =
     List.map_filter (\<lambda>f. case parse (snd f) of Inl msg \<Rightarrow> Some (fst f, msg) | Inr s \<Rightarrow> None)
       (candidates exts files)"

section \<open>Properties of is_truthy\<close>

lemma lower_true_values: "\<forall>s \<in> set true_values. lower s = s"
  by code_simp

lemma lower_false_values: "\<forall>s \<in> set false_values. lower s = s"
  by code_simp

lemma true_false_disjoint: "set true_values \<inter> set false_values = {}"
  by (simp add: true_values_def false_values_def)

lemma is_truthy_str:
  "is_truthy (PyStr s) =
     (if lower s \<in> set true_values then Inr True
      else if lower s \<in> set false_values then Inr False
      else Inl ValueError)"
  by (simp add: Let_def)

lemma is_truthy_not_str: "is_truthy (PyInt n) = Inl AttributeError" "is_truthy PyNone = Inl AttributeError"
  by simp_all

text \<open>
  The twelve words are ASCII and \<open>lower\<close> keeps every byte from 128 on, so a string with
  a non-ASCII character is never one of them after lower-casing: it raises \<^verbatim>\<open>ValueError\<close>,
  as it does in Python, however Python lower-cases the non-ASCII part.
\<close>

lemma words_ascii:
  "\<forall>w \<in> set (true_values @ false_values). \<forall>c \<in> set w. (of_char c :: nat) < 128"
  by code_simp

lemma lower_char_non_ascii: "128 \<le> (of_char c :: nat) \<Longrightarrow> lower_char c = c"
  by (simp add: lower_char_def Let_def)

lemma is_truthy_non_ascii:
  assumes "c \<in> set s" and "128 \<le> (of_char c :: nat)"
  shows "is_truthy (PyStr s) = Inl ValueError"
proof -
  from assms have "lower_char c \<in> set (lower s)"
    by (simp add: lower_def)
  with assms(2) have c: "c \<in> set (lower s)"
    by (simp add: lower_char_non_ascii)
  have "lower s \<notin> set (true_values @ false_values)"
  proof
    assume "lower s \<in> set (true_values @ false_values)"
    with words_ascii c have "(of_char c :: nat) < 128" by blast
    with assms(2) show False by simp
  qed
  then show ?thesis by (simp add: is_truthy_str)
qed

text \<open>
  C9, as the claim states it, asks for a \<^verbatim>\<open>ValueError\<close> on every string outside the twelve
  listed words. \<^verbatim>\<open>strtobool\<close> lower-cases its argument first, so \<^verbatim>\<open>"YES"\<close>, which is not
  one of the twelve, is accepted and gives \<^verbatim>\<open>True\<close>.
\<close>

theorem is_truthy_upper_case_accepted:
  "''YES'' \<notin> set true_values \<and> ''YES'' \<notin> set false_values \<and> is_truthy (PyStr ''YES'') = Inr True"
  by code_simp

text \<open>
  C9, amended: \<^verbatim>\<open>is_truthy\<close> returns a boolean argument unchanged; it returns \<^verbatim>\<open>True\<close> for
  every string among y, yes, t, true, on, 1 and for every string whose lower-case form is
  one of them, \<^verbatim>\<open>False\<close> for every string among n, no, f, false, off, 0 and for every
  string whose lower-case form is one of them, and raises \<^verbatim>\<open>ValueError\<close> for every string
  whose lower-case form is none of the twelve.
\<close>

theorem is_truthy_spec:
  "is_truthy (PyBool b) = Inr b \<and>
   (s \<in> set true_values \<or> lower s \<in> set true_values \<longrightarrow> is_truthy (PyStr s) = Inr True) \<and>
   (s \<in> set false_values \<or> lower s \<in> set false_values \<longrightarrow> is_truthy (PyStr s) = Inr False) \<and>
   (lower s \<notin> set true_values \<and> lower s \<notin> set false_values \<longrightarrow>
      is_truthy (PyStr s) = Inl ValueError)"
proof -
  have t: "lower s \<in> set true_values" if "s \<in> set true_values"
    using that lower_true_values by simp
  have f: "lower s \<in> set false_values" if "s \<in> set false_values"
    using that lower_false_values by simp
  have d: "lower s \<notin> set true_values" if "lower s \<in> set false_values"
    using that true_false_disjoint by blast
  show ?thesis
    using t f d by (auto simp: is_truthy_str)
qed

theorem is_truthy_spec_witness:
  "is_truthy (PyBool False) = Inr False \<and>
   is_truthy (PyStr ''on'') = Inr True \<and>
   is_truthy (PyStr ''True'') = Inr True \<and>
   is_truthy (PyStr ''0'') = Inr False \<and>
   is_truthy (PyStr ''Off'') = Inr False \<and>
   is_truthy (PyStr ''maybe'') = Inl ValueError"
proof -
  have a: "''on'' \<in> set true_values" by code_simp
  have b: "lower ''True'' \<in> set true_values" by code_simp
  have c: "''0'' \<in> set false_values" by code_simp
  have d: "lower ''Off'' \<in> set false_values" by code_simp
  have e: "lower ''maybe'' \<notin> set true_values \<and> lower ''maybe'' \<notin> set false_values" by code_simp
  show ?thesis
    using is_truthy_spec [of False "''on''"] is_truthy_spec [of False "''True''"]
      is_truthy_spec [of False "''0''"] is_truthy_spec [of False "''Off''"]
      is_truthy_spec [of False "''maybe''"] a b c d e
    by metis
qed

section \<open>Properties of run_cmd\<close>

text \<open>
  Outside the two branches: when \<^verbatim>\<open>is_truthy(local)\<close> raises, the condition of the
  \<^verbatim>\<open>if\<close> has no value, and \<^verbatim>\<open>run_cmd\<close> ends with that error before anything is printed or
  run. The callers in \<^verbatim>\<open>tasks.py\<close> pass the task's \<^verbatim>\<open>local\<close>, whose default \<^verbatim>\<open>INVOKE_LOCAL\<close> is
  already a boolean.
\<close>

lemma run_cmd_is_truthy_raises:
  "is_truthy local = Inl e \<Longrightarrow> run_cmd run pwd w exec_cmd name image_ver local = (Inl e, w)"
  by (simp add: run_cmd_def)

text \<open>
  C10: when \<^verbatim>\<open>is_truthy(local)\<close> is true, \<^verbatim>\<open>run_cmd\<close> hands the command string itself to
  \<^verbatim>\<open>context.run\<close>; otherwise, when it is false, it hands over the command wrapped in
  \<^verbatim>\<open>docker run -it -v PWD:/local name:image_ver sh -c '...'\<close>. In both branches the context
  is run once, on the state it had at entry, with \<^verbatim>\<open>pty=True\<close>, and \<^verbatim>\<open>run_cmd\<close> returns that
  call's result; the context is left in the state that call produced.
\<close>

theorem run_cmd_spec:
  "(is_truthy local = Inr True \<longrightarrow>
      fst (run_cmd run pwd w exec_cmd name image_ver local) = fst (run exec_cmd True (ctx w)) \<and>
      ctx (snd (run_cmd run pwd w exec_cmd name image_ver local)) = snd (run exec_cmd True (ctx w))) \<and>
   (is_truthy local = Inr False \<longrightarrow>
      fst (run_cmd run pwd w exec_cmd name image_ver local) =
        fst (run (''docker run -it -v '' @ pwd @ '':/local '' @ name @ '':'' @ image_ver @
                  '' sh -c '' @ [CHR 39] @ exec_cmd @ [CHR 39]) True (ctx w)) \<and>
      ctx (snd (run_cmd run pwd w exec_cmd name image_ver local)) =
        snd (run (''docker run -it -v '' @ pwd @ '':/local '' @ name @ '':'' @ image_ver @
                  '' sh -c '' @ [CHR 39] @ exec_cmd @ [CHR 39]) True (ctx w)))"
  by (simp add: run_cmd_def context_run_def print_def docker_cmd_def split: prod.split)

theorem run_cmd_spec_witness:
  "is_truthy (PyBool True) = Inr True \<and>
   fst (run_cmd recording_run ''/repo'' \<lparr>stdout = [], ctx = []\<rparr> ''flake8 .'' ''img'' ''1.0'' (PyBool True)) = Inr 1 \<and>
   ctx (snd (run_cmd recording_run ''/repo'' \<lparr>stdout = [], ctx = []\<rparr> ''flake8 .'' ''img'' ''1.0'' (PyBool True)))
     = [(''flake8 .'', True)] \<and>
   is_truthy (PyBool False) = Inr False \<and>
   fst (run_cmd recording_run ''/repo'' \<lparr>stdout = [], ctx = []\<rparr> ''flake8 .'' ''img'' ''1.0'' (PyBool False)) = Inr 1 \<and>
   ctx (snd (run_cmd recording_run ''/repo'' \<lparr>stdout = [], ctx = []\<rparr> ''flake8 .'' ''img'' ''1.0'' (PyBool False)))
     = [(''docker run -it -v /repo:/local img:1.0 sh -c '' @ [CHR 39] @ ''flake8 .'' @ [CHR 39], True)]"
proof -
  have y: "is_truthy (PyBool True) = Inr True" by simp
  have n: "is_truthy (PyBool False) = Inr False" by simp
  show ?thesis
    using y n
      run_cmd_spec [of "PyBool True" recording_run "''/repo''" "\<lparr>stdout = [], ctx = []\<rparr>" "''flake8 .''" "''img''" "''1.0''"]
      run_cmd_spec [of "PyBool False" recording_run "''/repo''" "\<lparr>stdout = [], ctx = []\<rparr>" "''flake8 .''" "''img''" "''1.0''"]
    by (simp add: recording_run_def)
qed

section \<open>Properties of the Schema Store\<close>

lemma candidates_simps:
  "candidates exts [] = []"
  "candidates exts ((p, c) # fs) = (if is_candidate exts p then (p, c) # candidates exts fs else candidates exts fs)"
  by (simp_all add: candidates_def)

lemma candidate_ids_simps:
  "candidate_ids exts [] = []"
  "candidate_ids exts ((p, c) # fs) =
     (if is_candidate exts p then identifier_of p # candidate_ids exts fs else candidate_ids exts fs)"
  by (simp_all add: candidate_ids_def candidates_simps)

lemma runnable_simps:
  "runnable parse exts [] = []"
  "runnable parse exts ((p, c) # fs) =
     (if is_candidate exts p
      then (case parse c of Inl msg \<Rightarrow> runnable parse exts fs
            | Inr s \<Rightarrow> (identifier_of p, s) # runnable parse exts fs)
      else runnable parse exts fs)"
  by (simp_all add: runnable_def candidates_simps map_filter_simps split: sum.split)

lemma failed_simps:
  "failed parse exts [] = []"
  "failed parse exts ((p, c) # fs) =
     (if is_candidate exts p
      then (case parse c of Inl msg \<Rightarrow> (p, msg) # failed parse exts fs
            | Inr s \<Rightarrow> failed parse exts fs)
      else failed parse exts fs)"
  by (simp_all add: failed_def candidates_simps map_filter_simps split: sum.split)

lemma load_files_ok:
  "distinct (candidate_ids exts fs) \<Longrightarrow> set (candidate_ids exts fs) \<inter> set seen = {} \<Longrightarrow>
   load_files parse exts fs seen st errs =
     Inr (fold (insort_key fst) (runnable parse exts fs) st, errs @ failed parse exts fs)"
proof (induction fs arbitrary: seen st errs)
  case Nil
  then show ?case by (simp add: runnable_simps failed_simps)
next
  case (Cons f fs)
  obtain p c where f: "f = (p, c)" by (cases f)
  show ?case
  proof (cases "is_candidate exts p")
    case False
    with Cons f show ?thesis
      by (simp add: runnable_simps failed_simps candidate_ids_simps)
  next
    case True
    with Cons.prems f have d: "distinct (candidate_ids exts fs)"
      and n: "identifier_of p \<notin> set seen"
      and i: "set (candidate_ids exts fs) \<inter> set (identifier_of p # seen) = {}"
      by (auto simp: candidate_ids_simps)
    show ?thesis
      using True n f Cons.IH [OF d i]
      by (simp add: runnable_simps failed_simps split: sum.split)
  qed
qed

lemma count_list_pos: "x \<in> set xs \<Longrightarrow> 1 \<le> count_list xs x"
  using count_list_0_iff [of xs x] by (cases "count_list xs x") auto

lemma load_files_dup:
  "\<not> (distinct (candidate_ids exts fs) \<and> set (candidate_ids exts fs) \<inter> set seen = {}) \<Longrightarrow>
   \<exists>i. load_files parse exts fs seen st errs = Inl (DuplicateSchemaIdentifier i) \<and>
       i \<in> set (candidate_ids exts fs) \<and> (i \<in> set seen \<or> 2 \<le> count_list (candidate_ids exts fs) i)"
proof (induction fs arbitrary: seen st errs)
  case Nil
  then show ?case by (simp add: candidate_ids_simps)
next
  case (Cons f fs)
  obtain p c where f: "f = (p, c)" by (cases f)
  show ?case
  proof (cases "is_candidate exts p")
    case False
    with Cons f show ?thesis
      by (simp add: candidate_ids_simps)
  next
    case cand: True
    show ?thesis
    proof (cases "identifier_of p \<in> set seen")
      case True
      with cand f show ?thesis
        by (simp add: candidate_ids_simps)
    next
      case False
      have ids: "candidate_ids exts (f # fs) = identifier_of p # candidate_ids exts fs"
        using cand f by (simp add: candidate_ids_simps)
      from Cons.prems False
      have "\<not> (distinct (candidate_ids exts fs) \<and>
                set (candidate_ids exts fs) \<inter> set (identifier_of p # seen) = {})"
        unfolding ids by auto
      note ih = Cons.IH [OF this]
      define st' where "st' = (case parse c of Inl msg \<Rightarrow> st | Inr s \<Rightarrow> insort_key fst (identifier_of p, s) st)"
      define errs' where "errs' = (case parse c of Inl msg \<Rightarrow> errs @ [(p, msg)] | Inr s \<Rightarrow> errs)"
      have step: "load_files parse exts (f # fs) seen st errs =
                  load_files parse exts fs (identifier_of p # seen) st' errs'"
        using cand False f by (simp add: st'_def errs'_def split: sum.split)
      from ih [of st' errs'] obtain i where
        l: "load_files parse exts fs (identifier_of p # seen) st' errs' = Inl (DuplicateSchemaIdentifier i)"
        and m: "i \<in> set (candidate_ids exts fs)"
        and d: "i \<in> set (identifier_of p # seen) \<or> 2 \<le> count_list (candidate_ids exts fs) i"
        by blast
      have "i \<in> set seen \<or> 2 \<le> count_list (candidate_ids exts (f # fs)) i"
      proof (cases "i = identifier_of p")
        case True
        with count_list_pos [OF m] show ?thesis unfolding ids by simp
      next
        case False
        with d show ?thesis unfolding ids by auto
      qed
      with l m step show ?thesis unfolding ids by auto
    qed
  qed
qed


lemma filter_key_singleton:
  "distinct (map f xs) \<Longrightarrow> k \<in> set xs \<Longrightarrow> filter (\<lambda>x. f k = f x) xs = [k]"
proof (induction xs)
  case Nil
  then show ?case by simp
next
  case (Cons a xs)
  show ?case
  proof (cases "k = a")
    case True
    from Cons.prems have "\<forall>x \<in> set xs. f a \<noteq> f x" by auto
    then have "filter (\<lambda>x. f a = f x) xs = []" by (simp add: filter_empty_conv)
    with True show ?thesis by simp
  next
    case False
    with Cons.prems have k: "k \<in> set xs" and d: "distinct (map f xs)" by auto
    from Cons.prems have "f a \<notin> f ` set xs" by simp
    with k have "f k \<noteq> f a" by (metis imageI)
    with Cons.IH [OF d k] show ?thesis by simp
  qed
qed

lemma sort_key_unique:
  assumes "mset xs = mset ys" and "distinct (map f ys)" and "sorted (map f xs)"
  shows "sort_key f ys = xs"
proof (rule properties_for_sort_key)
  show "mset xs = mset ys" by fact
  show "sorted (map f xs)" by fact
  have dx: "distinct (map f xs)"
    using assms(1,2) mset_eq_imp_distinct_iff [of "map f xs" "map f ys"] by simp
  fix k assume k: "k \<in> set xs"
  then have "k \<in> set ys" using assms(1) mset_eq_setD by blast
  with k dx assms(2) show "filter (\<lambda>x. f k = f x) xs = filter (\<lambda>x. f k = f x) ys"
    by (simp add: filter_key_singleton)
qed

lemma mset_fold_insort_key: "mset (fold (insort_key f) xs st) = mset xs + mset st"
  by (induction xs arbitrary: st) simp_all

lemma sorted_fold_insort_key:
  "sorted (map f st) \<Longrightarrow> sorted (map f (fold (insort_key f) xs st))"
  by (induction xs arbitrary: st) (simp_all add: sorted_insort_key)

lemma fold_insort_key_sort_key:
  "distinct (map f xs) \<Longrightarrow> fold (insort_key f) xs [] = sort_key f xs"
  by (rule sym, rule sort_key_unique) (simp_all add: mset_fold_insort_key sorted_fold_insort_key)

lemma runnable_ids_subset:
  "(i, s) \<in> set (runnable parse exts fs) \<Longrightarrow> i \<in> set (candidate_ids exts fs)"
proof (induction fs)
  case Nil
  then show ?case by (simp add: runnable_simps)
next
  case (Cons f fs)
  obtain p c where f: "f = (p, c)" by (cases f)
  from Cons f show ?case
    by (auto simp: runnable_simps candidate_ids_simps split: sum.splits if_splits)
qed

lemma distinct_runnable:
  "distinct (candidate_ids exts fs) \<Longrightarrow> distinct (map fst (runnable parse exts fs))"
proof (induction fs)
  case Nil
  then show ?case by (simp add: runnable_simps)
next
  case (Cons f fs)
  obtain p c where f: "f = (p, c)" by (cases f)
  from Cons f show ?case
    by (auto simp: runnable_simps candidate_ids_simps dest: runnable_ids_subset
             split: sum.splits if_splits)
qed

lemma load_ok:
  assumes "distinct (candidate_ids exts files)"
  shows "load parse exts files = Inr (sort_key fst (runnable parse exts files), failed parse exts files)"
  using load_files_ok [of exts files "[]" parse "[]" "[]"] assms
  by (simp add: load_def fold_insort_key_sort_key distinct_runnable)

lemma load_dup:
  assumes "\<not> distinct (candidate_ids exts files)"
  shows "\<exists>i. load parse exts files = Inl (DuplicateSchemaIdentifier i) \<and>
             2 \<le> count_list (candidate_ids exts files) i"
  using load_files_dup [of exts files "[]" parse "[]" "[]"] assms
  by (auto simp: load_def)

lemma mset_candidate_ids:
  "mset files' = mset files \<Longrightarrow> mset (candidate_ids exts files') = mset (candidate_ids exts files)"
  by (simp add: candidate_ids_def candidates_def)

lemma mset_runnable:
  "mset files' = mset files \<Longrightarrow> mset (runnable parse exts files') = mset (runnable parse exts files)"
  by (simp add: runnable_def candidates_def map_filter_def)

lemma mset_failed:
  "mset files' = mset files \<Longrightarrow> mset (failed parse exts files') = mset (failed parse exts files)"
  by (simp add: failed_def candidates_def map_filter_def)

lemma sort_key_runnable_perm:
  assumes "mset files' = mset files" and "distinct (candidate_ids exts files)"
  shows "sort_key fst (runnable parse exts files') = sort_key fst (runnable parse exts files)"
proof (rule sort_key_unique)
  show "mset (sort_key fst (runnable parse exts files)) = mset (runnable parse exts files')"
    using mset_runnable [OF assms(1), of parse exts] by simp
  have "distinct (candidate_ids exts files')"
    using assms mset_eq_imp_distinct_iff [OF mset_candidate_ids [OF assms(1)]] by simp
  then show "distinct (map fst (runnable parse exts files'))" by (rule distinct_runnable)
  show "sorted (map fst (sort_key fst (runnable parse exts files)))" by simp
qed


lemma set_runnable:
  "set (runnable parse exts fs) =
     {(identifier_of (fst f), s) | f s. f \<in> set (candidates exts fs) \<and> parse (snd f) = Inr s}"
proof (induction fs)
  case Nil
  then show ?case by (simp add: runnable_simps candidates_simps)
next
  case (Cons f fs)
  obtain p c where f: "f = (p, c)" by (cases f)
  show ?case
    unfolding f using Cons.IH
    by (auto simp: runnable_simps candidates_simps split: sum.splits)
qed

lemma set_failed:
  "set (failed parse exts fs) =
     {(fst f, msg) | f msg. f \<in> set (candidates exts fs) \<and> parse (snd f) = Inl msg}"
  by (auto simp: failed_def map_filter_def image_iff split: sum.splits) force

lemma get_schema_sort_key:
  assumes "distinct (map fst xs)"
  shows "get_schema (sort_key fst xs) i = Some s \<longleftrightarrow> (i, s) \<in> set xs"
proof -
  have "mset (map fst (sort_key fst xs)) = mset (map fst xs)" by simp
  then have "distinct (map fst (sort_key fst xs))"
    using assms mset_eq_imp_distinct_iff by blast
  then show ?thesis by (simp add: get_schema_def)
qed

lemma candidate_unique:
  assumes "distinct (candidate_ids exts fs)"
    and "f \<in> set (candidates exts fs)" and "g \<in> set (candidates exts fs)"
    and "identifier_of (fst f) = identifier_of (fst g)"
  shows "f = g"
proof -
  from assms(1) have "inj_on (\<lambda>f. identifier_of (fst f)) (set (candidates exts fs))"
    by (simp add: candidate_ids_def distinct_map)
  with assms(2-4) show ?thesis by (auto dest: inj_onD)
qed

lemma load_files_each:
  assumes d: "distinct (candidate_ids exts files)" and f: "(p, c) \<in> set (candidates exts files)"
  shows "case parse c of
           Inl msg \<Rightarrow> (p, msg) \<in> set (failed parse exts files) \<and>
                      get_schema (sort_key fst (runnable parse exts files)) (identifier_of p) = None
         | Inr s \<Rightarrow> get_schema (sort_key fst (runnable parse exts files)) (identifier_of p) = Some s"
proof (cases "parse c")
  case (Inl msg)
  have "(p, msg) \<in> set (failed parse exts files)"
    using f Inl by (force simp: set_failed)
  moreover have "get_schema (sort_key fst (runnable parse exts files)) (identifier_of p) = None"
  proof (rule ccontr)
    assume "get_schema (sort_key fst (runnable parse exts files)) (identifier_of p) \<noteq> None"
    then obtain s where "get_schema (sort_key fst (runnable parse exts files)) (identifier_of p) = Some s"
      by blast
    then have "(identifier_of p, s) \<in> set (runnable parse exts files)"
      by (simp add: get_schema_sort_key distinct_runnable [OF d])
    then obtain g where g: "g \<in> set (candidates exts files)" "parse (snd g) = Inr s"
      "identifier_of (fst g) = identifier_of p"
      by (auto simp: set_runnable)
    from candidate_unique [OF d g(1) f] g(3) have "g = (p, c)" by simp
    with g(2) Inl show False by simp
  qed
  ultimately show ?thesis using Inl by simp
next
  case (Inr s)
  have "(identifier_of p, s) \<in> set (runnable parse exts files)"
    using f Inr by (force simp: set_runnable)
  then show ?thesis
    using Inr by (simp add: get_schema_sort_key distinct_runnable [OF d])
qed

text \<open>
  C3: loading tolerates parse failures and fails as a whole on a duplicate identifier. When
  the candidate files of the directory normalize to pairwise different identifiers, the load
  succeeds; its load errors are the path and message of exactly the candidates that do not
  parse; each such file is recorded there and absent from the store, and every candidate
  that parses is in the store under its identifier, wherever the failing files stand in
  the enumeration. When two candidates normalize to the same identifier, the load as a
  whole ends in a DuplicateSchemaIdentifier error that names an identifier occurring at
  least twice.
\<close>

theorem load_partial_failure_tolerant:
  "if distinct (candidate_ids exts files)
   then \<exists>st errs. load parse exts files = Inr (st, errs) \<and> errs = failed parse exts files \<and>
          (\<forall>(p, c) \<in> set (candidates exts files).
             case parse c of
               Inl msg \<Rightarrow> (p, msg) \<in> set errs \<and> get_schema st (identifier_of p) = None
             | Inr s \<Rightarrow> get_schema st (identifier_of p) = Some s)
   else \<exists>i. load parse exts files = Inl (DuplicateSchemaIdentifier i) \<and>
          2 \<le> count_list (candidate_ids exts files) i"
proof (cases "distinct (candidate_ids exts files)")
  case True
  have "\<forall>(p, c) \<in> set (candidates exts files).
             case parse c of
               Inl msg \<Rightarrow> (p, msg) \<in> set (failed parse exts files) \<and>
                  get_schema (sort_key fst (runnable parse exts files)) (identifier_of p) = None
             | Inr s \<Rightarrow> get_schema (sort_key fst (runnable parse exts files)) (identifier_of p) = Some s"
    using load_files_each [OF True] by blast
  with True load_ok [OF True, of parse] show ?thesis by simp
next
  case False
  with load_dup [OF False, of parse] show ?thesis by simp
qed


text \<open>
  An instance: four files of which one is no candidate and one does not parse, and two
  files, \<^verbatim>\<open>schemas/ntp.yml\<close> and \<^verbatim>\<open>schemas/ntp.json\<close>, that normalize to one identifier.
\<close>

theorem load_partial_failure_tolerant_witness:
  "distinct (candidate_ids [''.yml'', ''.json'']
     [(''schemas/ntp.yml'', ''{}''), (''schemas/broken.yml'', ''{''), (''README.md'', ''# doc''),
      (''schemas/dns_servers.yml'', ''{}'')]) \<and>
   (\<exists>st errs.
      load (\<lambda>c. if c = ''{}'' then Inr c else Inl ''unexpected end of input'') [''.yml'', ''.json'']
        [(''schemas/ntp.yml'', ''{}''), (''schemas/broken.yml'', ''{''), (''README.md'', ''# doc''),
         (''schemas/dns_servers.yml'', ''{}'')] = Inr (st, errs) \<and>
      errs = [(''schemas/broken.yml'', ''unexpected end of input'')] \<and>
      get_schema st ''schemas/broken'' = None \<and>
      get_schema st ''schemas/ntp'' = Some ''{}'' \<and>
      get_schema st ''schemas/dns_servers'' = Some ''{}'') \<and>
   \<not> distinct (candidate_ids [''.yml'', ''.json'']
     [(''schemas/ntp.yml'', ''{}''), (''schemas/ntp.json'', ''{}'')]) \<and>
   (\<exists>i. load (\<lambda>c. if c = ''{}'' then Inr c else Inl ''unexpected end of input'') [''.yml'', ''.json'']
        [(''schemas/ntp.yml'', ''{}''), (''schemas/ntp.json'', ''{}'')] = Inl (DuplicateSchemaIdentifier i))"
proof -
  let ?E = "[''.yml'', ''.json'']"
  let ?P = "\<lambda>c. if c = ''{}'' then Inr c else Inl ''unexpected end of input''"
  let ?F = "[(''schemas/ntp.yml'', ''{}''), (''schemas/broken.yml'', ''{''), (''README.md'', ''# doc''),
      (''schemas/dns_servers.yml'', ''{}'')]"
  let ?G = "[(''schemas/ntp.yml'', ''{}''), (''schemas/ntp.json'', ''{}'')]"
  have d: "distinct (candidate_ids ?E ?F)" by code_simp
  have n: "\<not> distinct (candidate_ids ?E ?G)" by code_simp
  have fl: "failed ?P ?E ?F = [(''schemas/broken.yml'', ''unexpected end of input'')]" by code_simp
  have c: "(''schemas/broken.yml'', ''{'') \<in> set (candidates ?E ?F)"
    "(''schemas/ntp.yml'', ''{}'') \<in> set (candidates ?E ?F)"
    "(''schemas/dns_servers.yml'', ''{}'') \<in> set (candidates ?E ?F)"
    by code_simp+
  have i: "identifier_of ''schemas/broken.yml'' = ''schemas/broken''"
    "identifier_of ''schemas/ntp.yml'' = ''schemas/ntp''"
    "identifier_of ''schemas/dns_servers.yml'' = ''schemas/dns_servers''"
    by code_simp+
  from load_partial_failure_tolerant [of ?E ?F ?P, unfolded if_P [OF d]]
  obtain st errs where l: "load ?P ?E ?F = Inr (st, errs)" and e: "errs = failed ?P ?E ?F"
    and a: "\<forall>(p, c) \<in> set (candidates ?E ?F).
             case ?P c of
               Inl msg \<Rightarrow> (p, msg) \<in> set errs \<and> get_schema st (identifier_of p) = None
             | Inr s \<Rightarrow> get_schema st (identifier_of p) = Some s"
    by blast
  from bspec [OF a c(1)] bspec [OF a c(2)] bspec [OF a c(3)]
  have g: "get_schema st ''schemas/broken'' = None" "get_schema st ''schemas/ntp'' = Some ''{}''"
    "get_schema st ''schemas/dns_servers'' = Some ''{}''"
    by (simp_all add: i)
  from load_partial_failure_tolerant [of ?E ?G ?P, unfolded if_not_P [OF n]]
  have "\<exists>i. load ?P ?E ?G = Inl (DuplicateSchemaIdentifier i)" by blast
  with d n l e fl g show ?thesis by blast
qed

lemma splitext_examples:
  "splitext ''schemas/dns_servers.yml'' = (''schemas/dns_servers'', ''.yml'')"
  "splitext ''schemas/ntp.yml'' = (''schemas/ntp'', ''.yml'')"
  "splitext ''schemas/syslog_servers.yml'' = (''schemas/syslog_servers'', ''.yml'')"
  by code_simp+

lemma load_three_schema_files:
  assumes a: "''.yml'' \<in> set exts \<and> parse c1 = Inr s1 \<and> parse c2 = Inr s2 \<and> parse c3 = Inr s3 \<and>
    mset files = mset [(''schemas/dns_servers.yml'', c1), (''schemas/ntp.yml'', c2),
                       (''schemas/syslog_servers.yml'', c3)]"
  shows "load parse exts files =
           Inr ([(''schemas/dns_servers'', s1), (''schemas/ntp'', s2), (''schemas/syslog_servers'', s3)],
                failed parse exts files)"
proof -
  let ?three = "[(''schemas/dns_servers.yml'', c1), (''schemas/ntp.yml'', c2),
                       (''schemas/syslog_servers.yml'', c3)]"
  from a have p: "mset files = mset ?three" by simp
  have ids: "candidate_ids exts ?three = [''schemas/dns_servers'', ''schemas/ntp'', ''schemas/syslog_servers'']"
    using a by (simp add: candidate_ids_simps is_candidate_def identifier_of_def splitext_examples)
  have d3: "distinct (candidate_ids exts ?three)" unfolding ids by simp
  have d: "distinct (candidate_ids exts files)"
    using d3 mset_eq_imp_distinct_iff [OF mset_candidate_ids [OF p, of exts]] by simp
  have r: "runnable parse exts ?three =
           [(''schemas/dns_servers'', s1), (''schemas/ntp'', s2), (''schemas/syslog_servers'', s3)]"
    using a by (simp add: runnable_simps is_candidate_def identifier_of_def splitext_examples)
  have "sort_key fst (runnable parse exts files) = sort_key fst (runnable parse exts ?three)"
    by (rule sort_key_runnable_perm [OF p d3])
  also have "\<dots> = [(''schemas/dns_servers'', s1), (''schemas/ntp'', s2), (''schemas/syslog_servers'', s3)]"
    unfolding r by simp
  finally show ?thesis
    using load_ok [OF d, of parse] by simp
qed

text \<open>
  The assertion of \<^verbatim>\<open>test_iter_schemas\<close> holds of a store loaded from three schema files
  with these names, in whatever order the directory lists them. (The fixture directory of
  the test is not among the sources; \<^verbatim>\<open>test_create_schema_from_file\<close> reads a file
  \<^verbatim>\<open>schemas/dns.yml\<close> from it.)
\<close>

lemma test_iter_schemas_passes:
  assumes "''.yml'' \<in> set exts \<and> parse c1 = Inr s1 \<and> parse c2 = Inr s2 \<and> parse c3 = Inr s3 \<and>
    mset files = mset [(''schemas/dns_servers.yml'', c1), (''schemas/ntp.yml'', c2),
                       (''schemas/syslog_servers.yml'', c3)]"
  shows "\<exists>st errs. load parse exts files = Inr (st, errs) \<and> test_iter_schemas (iter_schemas st)"
  using load_three_schema_files [OF assms]
  by (simp add: test_iter_schemas_def expected_schemas_def iter_schemas_def)

text \<open>
  C4: iteration order is lexicographic and independent of the enumeration order. For two
  enumerations of the same directory contents (equal as multisets of files) whose
  candidates have pairwise different identifiers, both loads succeed with the same store;
  iterating it yields the identifiers in ascending lexicographic order, each exactly once,
  and what it yields are the schemas of the runnable set. In particular, when \<^verbatim>\<open>.yml\<close> is a
  recognized extension and the three files \<^verbatim>\<open>schemas/dns_servers.yml\<close>, \<^verbatim>\<open>schemas/ntp.yml\<close>
  and \<^verbatim>\<open>schemas/syslog_servers.yml\<close> parse, a store built from them in any enumeration order
  yields exactly \<^verbatim>\<open>schemas/dns_servers\<close>, \<^verbatim>\<open>schemas/ntp\<close>, \<^verbatim>\<open>schemas/syslog_servers\<close>.
\<close>

theorem iter_schemas_sorted_order_independent:
  "(mset files' = mset files \<and> distinct (candidate_ids exts files) \<longrightarrow>
      (\<exists>st errs errs'.
         load parse exts files = Inr (st, errs) \<and> load parse exts files' = Inr (st, errs') \<and>
         sorted (map fst (iter_schemas st)) \<and> distinct (map fst (iter_schemas st)) \<and>
         set (iter_schemas st) = set (runnable parse exts files))) \<and>
   (''.yml'' \<in> set exts \<and> parse c1 = Inr s1 \<and> parse c2 = Inr s2 \<and> parse c3 = Inr s3 \<and>
    mset files = mset [(''schemas/dns_servers.yml'', c1), (''schemas/ntp.yml'', c2),
                       (''schemas/syslog_servers.yml'', c3)] \<longrightarrow>
      (\<exists>st errs.
         load parse exts files = Inr (st, errs) \<and>
         map fst (iter_schemas st) = [''schemas/dns_servers'', ''schemas/ntp'', ''schemas/syslog_servers'']))"
proof (intro conjI impI)
  assume a: "mset files' = mset files \<and> distinct (candidate_ids exts files)"
  then have p: "mset files' = mset files" and d: "distinct (candidate_ids exts files)" by simp_all
  have d': "distinct (candidate_ids exts files')"
    using d mset_eq_imp_distinct_iff [OF mset_candidate_ids [OF p, of exts]] by simp
  let ?st = "sort_key fst (runnable parse exts files)"
  have 1: "load parse exts files = Inr (?st, failed parse exts files)" by (rule load_ok [OF d])
  have 2: "load parse exts files' = Inr (?st, failed parse exts files')"
    using load_ok [OF d', of parse] sort_key_runnable_perm [OF p d, of parse] by simp
  have "mset (map fst ?st) = mset (map fst (runnable parse exts files))" by simp
  then have 3: "distinct (map fst ?st)"
    using distinct_runnable [OF d, of parse] mset_eq_imp_distinct_iff by blast
  have 4: "sorted (map fst ?st)" by simp
  have 5: "set ?st = set (runnable parse exts files)" by simp
  from 1 2 3 4 5 show "\<exists>st errs errs'.
         load parse exts files = Inr (st, errs) \<and> load parse exts files' = Inr (st, errs') \<and>
         sorted (map fst (iter_schemas st)) \<and> distinct (map fst (iter_schemas st)) \<and>
         set (iter_schemas st) = set (runnable parse exts files)"
    unfolding iter_schemas_def by blast
next
  assume "''.yml'' \<in> set exts \<and> parse c1 = Inr s1 \<and> parse c2 = Inr s2 \<and> parse c3 = Inr s3 \<and>
    mset files = mset [(''schemas/dns_servers.yml'', c1), (''schemas/ntp.yml'', c2),
                       (''schemas/syslog_servers.yml'', c3)]"
  from load_three_schema_files [OF this]
  show "\<exists>st errs.
         load parse exts files = Inr (st, errs) \<and>
         map fst (iter_schemas st) = [''schemas/dns_servers'', ''schemas/ntp'', ''schemas/syslog_servers'']"
    by (simp add: iter_schemas_def)
qed

text \<open>
  An instance: the three files enumerated in the order in which \<^verbatim>\<open>test_iter_schemas\<close> lists
  its expected identifiers, and in another order.
\<close>

theorem iter_schemas_sorted_order_independent_witness:
  "mset [(''schemas/ntp.yml'', ''b''), (''schemas/dns_servers.yml'', ''a''), (''schemas/syslog_servers.yml'', ''c'')]
     = mset [(''schemas/dns_servers.yml'', ''a''), (''schemas/syslog_servers.yml'', ''c''), (''schemas/ntp.yml'', ''b'')] \<and>
   distinct (candidate_ids [''.yml'']
     [(''schemas/dns_servers.yml'', ''a''), (''schemas/syslog_servers.yml'', ''c''), (''schemas/ntp.yml'', ''b'')]) \<and>
   (\<exists>st errs errs'.
      load Inr [''.yml'']
        [(''schemas/dns_servers.yml'', ''a''), (''schemas/syslog_servers.yml'', ''c''), (''schemas/ntp.yml'', ''b'')]
        = Inr (st, errs) \<and>
      load Inr [''.yml'']
        [(''schemas/ntp.yml'', ''b''), (''schemas/dns_servers.yml'', ''a''), (''schemas/syslog_servers.yml'', ''c'')]
        = Inr (st, errs') \<and>
      sorted (map fst (iter_schemas st)) \<and> distinct (map fst (iter_schemas st)) \<and>
      map fst (iter_schemas st) = [''schemas/dns_servers'', ''schemas/ntp'', ''schemas/syslog_servers''])"
proof -
  let ?P = "Inr :: string \<Rightarrow> string + string"
  let ?E = "[''.yml'']"
  let ?F = "[(''schemas/dns_servers.yml'', ''a''), (''schemas/syslog_servers.yml'', ''c''), (''schemas/ntp.yml'', ''b'')]"
  let ?F' = "[(''schemas/ntp.yml'', ''b''), (''schemas/dns_servers.yml'', ''a''), (''schemas/syslog_servers.yml'', ''c'')]"
  let ?T = "[(''schemas/dns_servers.yml'', ''a''), (''schemas/ntp.yml'', ''b''), (''schemas/syslog_servers.yml'', ''c'')]"
  have m: "mset ?F' = mset ?F" by simp
  have t: "mset ?F = mset ?T" by simp
  have d: "distinct (candidate_ids ?E ?F)" by code_simp
  have y: "''.yml'' \<in> set ?E" by simp
  note th = iter_schemas_sorted_order_independent [of ?F' ?F ?E ?P "''a''" "''a''" "''b''" "''b''" "''c''" "''c''"]
  from th m d obtain st errs errs' where
    1: "load ?P ?E ?F = Inr (st, errs)" and 2: "load ?P ?E ?F' = Inr (st, errs')"
    and 3: "sorted (map fst (iter_schemas st))" and 4: "distinct (map fst (iter_schemas st))"
    by blast
  have h: "''.yml'' \<in> set ?E \<and> ?P ''a'' = Inr ''a'' \<and> ?P ''b'' = Inr ''b'' \<and> ?P ''c'' = Inr ''c'' \<and>
    mset ?F = mset ?T"
    using y t by simp
  from th [THEN conjunct2, THEN mp, OF h] obtain st2 errs2 where
    5: "load ?P ?E ?F = Inr (st2, errs2)"
    and 6: "map fst (iter_schemas st2) = [''schemas/dns_servers'', ''schemas/ntp'', ''schemas/syslog_servers'']"
    by (elim exE conjE)
  from 1 5 have "st2 = st" by simp
  with 6 have 7: "map fst (iter_schemas st) = [''schemas/dns_servers'', ''schemas/ntp'', ''schemas/syslog_servers'']"
    by simp
  have "\<exists>st errs errs'.
      load ?P ?E ?F = Inr (st, errs) \<and> load ?P ?E ?F' = Inr (st, errs') \<and>
      sorted (map fst (iter_schemas st)) \<and> distinct (map fst (iter_schemas st)) \<and>
      map fst (iter_schemas st) = [''schemas/dns_servers'', ''schemas/ntp'', ''schemas/syslog_servers'']"
    by (rule exI [of _ st], rule exI [of _ errs], rule exI [of _ errs'], intro conjI)
       (fact 1, fact 2, fact 3, fact 4, fact 7)
  with m d show ?thesis
    by - (intro conjI; assumption)
qed

end
